theory Spec2Isabelle
  imports Main
begin

section \<open>Text and character classes\<close>

text \<open>
  Both scripts read a file into one Python string and rewrite it with \<^verbatim>\<open>re.sub\<close>.
  The text is a list of characters.  The classes \<^verbatim>\<open>\w\<close>, \<^verbatim>\<open>\d\<close> and \<^verbatim>\<open>\s\<close> are given on the
  ASCII range, where Python's tables are fixed: a word character is a letter, a digit or
  the underscore; a digit is one of 0-9; white space is tab, line feed, vertical tab, form
  feed, carriage return, the four separators 0x1C-0x1F and the blank.  A character outside
  ASCII is in none of the three classes here.
\<close>

datatype cclass = Word | Digit | Space | Not char

definition digit_chars :: string where
  "digit_chars = ''0123456789''"

definition word_chars :: string where
  "word_chars = ''abcdefghijklmnopqrstuvwxyzABCDEFGHIJKLMNOPQRSTUVWXYZ0123456789_''"

definition space_chars :: string where
  "space_chars = [CHR 0x09, CHR 0x0A, CHR 0x0B, CHR 0x0C, CHR 0x0D,
                  CHR 0x1C, CHR 0x1D, CHR 0x1E, CHR 0x1F, CHR 0x20]"

fun in_class :: "cclass \<Rightarrow> char \<Rightarrow> bool" where
  "in_class Word c = (c \<in> set word_chars)"
| "in_class Digit c = (c \<in> set digit_chars)"
| "in_class Space c = (c \<in> set space_chars)"
| "in_class (Not x) c = (c \<noteq> x)"

section \<open>The regular expressions of the two scripts\<close>

text \<open>
  The patterns use literal text, the word boundary \<^verbatim>\<open>\b\<close>, greedy \<^verbatim>\<open>*\<close> and \<^verbatim>\<open>+\<close> over one
  character class, numbered capture groups and back-references.
\<close>

datatype node =
    Str string
  | Boundary
  | Star cclass
  | Plus cclass
  | Group nat "node list"
  | Backref nat

type_synonym groups = "nat \<rightharpoonup> string"

text \<open>
  A matcher state: the character before the current position (none at the start of the
  text), the text from the current position on, and the groups captured so far.
\<close>

type_synonym mstate = "char option \<times> string \<times> groups"

fun starts_with :: "string \<Rightarrow> string \<Rightarrow> bool" where
  "starts_with [] r = True"
| "starts_with (c # s) [] = False"
| "starts_with (c # s) (x # r) = (c = x \<and> starts_with s r)"

fun advance :: "string \<Rightarrow> char option \<Rightarrow> char option" where
  "advance [] p = p"
| "advance (c # s) p = advance s (Some c)"

definition is_word :: "char option \<Rightarrow> bool" where
  "is_word p = (case p of None \<Rightarrow> False | Some c \<Rightarrow> in_class Word c)"

text \<open>\<^verbatim>\<open>\b\<close>: exactly one of the characters on the two sides of the position is a word character.\<close>

definition at_boundary :: "char option \<Rightarrow> string \<Rightarrow> bool" where
  "at_boundary p r = (is_word p \<noteq> is_word (case r of [] \<Rightarrow> None | c # _ \<Rightarrow> Some c))"

text \<open>
  Greedy repetition of one class: every position reachable by consuming class characters,
  the longest run first, the empty run last, which is the order in which the backtracking
  matcher tries them.
\<close>

fun runs :: "cclass \<Rightarrow> char option \<Rightarrow> string \<Rightarrow> (char option \<times> string) list" where
  "runs cl p [] = [(p, [])]"
| "runs cl p (c # r) =
     (if in_class cl c then runs cl (Some c) r @ [(p, c # r)] else [(p, c # r)])"

fun runs1 :: "cclass \<Rightarrow> char option \<Rightarrow> string \<Rightarrow> (char option \<times> string) list" where
  "runs1 cl p [] = []"
| "runs1 cl p (c # r) = (if in_class cl c then runs cl (Some c) r else [])"

text \<open>
  All the ways a pattern matches from a state, in the matcher's order of preference; the
  first is the match Python reports.  A group records the text its body consumed.  A
  back-reference to a group that has not matched fails.
\<close>

fun match_node :: "node \<Rightarrow> mstate \<Rightarrow> mstate list"
  and match_seq :: "node list \<Rightarrow> mstate \<Rightarrow> mstate list" where
  "match_node (Str s) (p, r, g) =
     (if starts_with s r then [(advance s p, drop (length s) r, g)] else [])"
| "match_node Boundary (p, r, g) = (if at_boundary p r then [(p, r, g)] else [])"
| "match_node (Star cl) (p, r, g) = map (\<lambda>(p', r'). (p', r', g)) (runs cl p r)"
| "match_node (Plus cl) (p, r, g) = map (\<lambda>(p', r'). (p', r', g)) (runs1 cl p r)"
| "match_node (Group k ns) (p, r, g) =
     map (\<lambda>(p', r', g'). (p', r', g'(k \<mapsto> take (length r - length r') r)))
       (match_seq ns (p, r, g))"
| "match_node (Backref k) (p, r, g) =
     (case g k of
        None \<Rightarrow> []
      | Some s \<Rightarrow> if starts_with s r then [(advance s p, drop (length s) r, g)] else [])"
| "match_seq [] st = [st]"
| "match_seq (n # ns) st = concat (map (match_seq ns) (match_node n st))"


section \<open>Substitution\<close>

text \<open>
  A replacement template is literal text and group references (\<^verbatim>\<open>\1\<close>, \<^verbatim>\<open>\2\<close>).  A reference to a
  group that took no part in the match expands to the empty string.
\<close>

datatype piece = Txt string | GroupRef nat

fun expand :: "piece list \<Rightarrow> groups \<Rightarrow> string" where
  "expand [] g = []"
| "expand (Txt s # t) g = s @ expand t g"
| "expand (GroupRef k # t) g = (case g k of None \<Rightarrow> [] | Some s \<Rightarrow> s) @ expand t g"

text \<open>
  The match reported at one position: the first way the pattern matches there.  After an
  empty match the next attempt at the same position must consume something (\<open>must\<close>).
\<close>

definition match_at :: "node list \<Rightarrow> bool \<Rightarrow> char option \<Rightarrow> string \<Rightarrow> mstate option" where
  "match_at pat must p r =
     List.find (\<lambda>(p', r', g'). if must then length r' < length r else True)
       (match_seq pat (p, r, Map.empty))"

lemma runs_length: "(p', r') \<in> set (runs cl p r) \<Longrightarrow> length r' \<le> length r"
  by (induction cl p r rule: runs.induct) (auto split: if_splits)

lemma runs1_length: "(p', r') \<in> set (runs1 cl p r) \<Longrightarrow> length r' < length r"
  by (cases r) (auto split: if_splits dest: runs_length)

lemma match_length:
  "st' \<in> set (match_node n st) \<Longrightarrow> length (fst (snd st')) \<le> length (fst (snd st))"
  "st' \<in> set (match_seq ns st) \<Longrightarrow> length (fst (snd st')) \<le> length (fst (snd st))"
proof (induction n st and ns st arbitrary: st' and st' rule: match_node_match_seq.induct)
  case (3 cl p r g)
  then show ?case by (auto dest: runs_length)
next
  case (4 cl p r g)
  then show ?case by (auto dest: runs1_length less_imp_le)
next
  case (5 k ns p r g)
  then show ?case by force
next
  case (8 n ns st)
  from "8.prems" obtain x where x: "x \<in> set (match_node n st)" and s: "st' \<in> set (match_seq ns x)"
    by auto
  from "8.IH"(1)[OF x] "8.IH"(2)[OF x s] show ?case by simp
qed (auto split: if_splits option.splits)

lemma find_Some_set: "List.find P xs = Some x \<Longrightarrow> x \<in> set xs \<and> P x"
  by (induction xs) (auto split: if_splits)

lemma match_at_length:
  assumes "match_at pat must p r = Some (p', r', g')"
  shows "length r' \<le> length r" and "must \<Longrightarrow> length r' < length r"
proof -
  from assms have "(p', r', g') \<in> set (match_seq pat (p, r, Map.empty))"
    and c: "if must then length r' < length r else True"
    by (auto simp: match_at_def dest: find_Some_set)
  then show "length r' \<le> length r" using match_length(2) by fastforce
  show "must \<Longrightarrow> length r' < length r" using c by simp
qed

text \<open>
  \<^verbatim>\<open>re.sub\<close>: scan the text from left to right; where the pattern matches, emit the expanded
  template and go on after the match; elsewhere copy one character and move on.
\<close>

function sub_from :: "node list \<Rightarrow> piece list \<Rightarrow> bool \<Rightarrow> char option \<Rightarrow> string \<Rightarrow> string" where
  "sub_from pat repl must p r =
     (case match_at pat must p r of
        Some (p', r', g') \<Rightarrow> expand repl g' @ sub_from pat repl (length r' = length r) p' r'
      | None \<Rightarrow> (case r of [] \<Rightarrow> [] | c # cs \<Rightarrow> c # sub_from pat repl False (Some c) cs))"
  by pat_completeness auto
termination
proof (relation "measures [\<lambda>(pat, repl, must, p, r). length r,
                           \<lambda>(pat, repl, must, p, r). if must then 0 else 1]")
  show "wf (measures [\<lambda>(pat :: node list, repl :: piece list, must, p :: char option, r :: string).
                        length r,
                      \<lambda>(pat, repl, must, p, r). if must then 0 else (1::nat)])"
    by simp
next
  fix pat :: "node list" and repl :: "piece list" and must p r st p' rg r' g'
  assume "match_at pat must p r = Some st" "(p', rg) = st" "(r', g') = rg"
  then have m: "match_at pat must p r = Some (p', r', g')"
    by simp
  show "((pat, repl, length r' = length r, p', r'), (pat, repl, must, p, r))
        \<in> measures [\<lambda>(pat, repl, must, p, r). length r,
                      \<lambda>(pat, repl, must, p, r). if must then 0 else 1]"
    using match_at_length[OF m] by (cases must) auto
next
  fix pat :: "node list" and repl :: "piece list" and must and p :: "char option"
    and r :: string and c cs
  assume "r = c # cs"
  then show "((pat, repl, False, Some c, cs), (pat, repl, must, p, r))
        \<in> measures [\<lambda>(pat, repl, must, p, r). length r,
                      \<lambda>(pat, repl, must, p, r). if must then 0 else 1]"
    by simp
qed

declare sub_from.simps [simp del]

definition re_sub :: "node list \<Rightarrow> piece list \<Rightarrow> string \<Rightarrow> string" where
  "re_sub pat repl s = sub_from pat repl False None s"

text \<open>\<^verbatim>\<open>re.search\<close>, as a test: does the pattern match at some position of the text?\<close>

fun search_from :: "node list \<Rightarrow> char option \<Rightarrow> string \<Rightarrow> bool" where
  "search_from pat p [] =
     (case match_at pat False p [] of Some _ \<Rightarrow> True | None \<Rightarrow> False)"
| "search_from pat p (c # cs) =
     (case match_at pat False p (c # cs) of
        Some _ \<Rightarrow> True
      | None \<Rightarrow> search_from pat (Some c) cs)"

definition re_search :: "node list \<Rightarrow> string \<Rightarrow> bool" where
  "re_search pat s = search_from pat None s"

section \<open>Script A: \<^verbatim>\<open>fix_boost_json.py\<close>\<close>

text \<open>Line 16: \<^verbatim>\<open>\bjson\s+(\w+);\s*\n(\s*)\1\["\<close> becomes \<^verbatim>\<open>boost::json::object \1;\n\2\1["\<close>.\<close>

definition decl_pat :: "node list" where
  \<open>decl_pat = [Boundary, Str ''json'', Plus Space, Group 1 [Plus Word], Str '';'', Star Space,
               Str [CHR 0x0A], Group 2 [Star Space], Backref 1, Str ''["'']\<close>

definition decl_repl :: "piece list" where
  \<open>decl_repl = [Txt ''boost::json::object '', GroupRef 1, Txt '';'', Txt [CHR 0x0A],
                GroupRef 2, GroupRef 1, Txt ''["'']\<close>

text \<open>Lines 19 and 20: the two spellings of array creation.\<close>

definition array_pat :: "node list" where
  "array_pat = [Boundary, Str ''json::array()'']"

definition value_array_pat :: "node list" where
  "value_array_pat = [Boundary, Str ''boost::json::value::array()'']"

definition array_repl :: "piece list" where
  "array_repl = [Txt ''boost::json::array()'']"

text \<open>Lines 23 and 24: the two spellings of object creation.\<close>

definition object_pat :: "node list" where
  "object_pat = [Boundary, Str ''json::object()'']"

definition value_object_pat :: "node list" where
  "value_object_pat = [Boundary, Str ''boost::json::value::object()'']"

definition object_repl :: "piece list" where
  "object_repl = [Txt ''boost::json::object()'']"

text \<open>Line 27: \<^verbatim>\<open>(\w+)\.dump\((\d+)\)\<close> becomes \<^verbatim>\<open>boost::json::serialize(\1)\<close>.\<close>

definition dump_pat :: "node list" where
  "dump_pat = [Group 1 [Plus Word], Str ''.dump('', Group 2 [Plus Digit], Str '')'']"

definition dump_repl :: "piece list" where
  "dump_repl = [Txt ''boost::json::serialize('', GroupRef 1, Txt '')'']"

text \<open>
  Line 31: \<^verbatim>\<open>(\w+)\.contains\("([^"]+)"\)\<close> becomes
  \<^verbatim>\<open>\1.is_object() && \1.as_object().contains("\2")\<close>.
\<close>

definition contains_pat :: "node list" where
  \<open>contains_pat = [Group 1 [Plus Word], Str ''.contains("'', Group 2 [Plus (Not (CHR ''"''))],
                   Str ''")'']\<close>

definition contains_repl :: "piece list" where
  \<open>contains_repl = [GroupRef 1, Txt ''.is_object() && '', GroupRef 1,
                    Txt ''.as_object().contains("'', GroupRef 2, Txt ''")'']\<close>

definition rule_decl :: "string \<Rightarrow> string" where
  "rule_decl = re_sub decl_pat decl_repl"

definition rule_array :: "string \<Rightarrow> string" where
  "rule_array = re_sub array_pat array_repl"

definition rule_value_array :: "string \<Rightarrow> string" where
  "rule_value_array = re_sub value_array_pat array_repl"

definition rule_object :: "string \<Rightarrow> string" where
  "rule_object = re_sub object_pat object_repl"

definition rule_value_object :: "string \<Rightarrow> string" where
  "rule_value_object = re_sub value_object_pat object_repl"

definition rule_dump :: "string \<Rightarrow> string" where
  "rule_dump = re_sub dump_pat dump_repl"

definition rule_contains :: "string \<Rightarrow> string" where
  "rule_contains = re_sub contains_pat contains_repl"

text \<open>The seven patterns of Script A, in the order of their use.\<close>

definition patterns_A :: "node list list" where
  "patterns_A = [decl_pat, array_pat, value_array_pat, object_pat, value_object_pat,
                 dump_pat, contains_pat]"

text \<open>
  The world the scripts act on: the text files by path, the paths written so far (one
  entry per write, also when the content written equals the old content), and the lines
  printed so far.  The content of a file is the text that \<^verbatim>\<open>read\<close> returns for it.  A path
  that is not a readable text file has no entry; \<^verbatim>\<open>open\<close> raises an \<^verbatim>\<open>OSError\<close> for it, which
  neither script catches.
\<close>

record world =
  files :: "string \<rightharpoonup> string"
  written :: "string list"
  console :: "string list"

datatype error = OSError string

definition fix_boost_json_file :: "string \<Rightarrow> world \<Rightarrow> error + (bool \<times> world)" where
  "fix_boost_json_file filepath w =
     (case files w filepath of
        None \<Rightarrow> Inl (OSError filepath)
      | Some original_content \<Rightarrow>
          let content = rule_decl original_content;
              content = rule_array content;
              content = rule_value_array content;
              content = rule_object content;
              content = rule_value_object content;
              content = rule_dump content;
              content = rule_contains content
          in if content \<noteq> original_content
             then Inr (True, w\<lparr>files := (files w)(filepath \<mapsto> content),
                               written := written w @ [filepath],
                               console := console w @ [''Fixed: '' @ filepath]\<rparr>)
             else Inr (False, w))"

text \<open>Python's \<^verbatim>\<open>str\<close> of a natural number.\<close>

fun str_nat :: "nat \<Rightarrow> string" where
  "str_nat n =
     (if n < 10 then [digit_chars ! n] else str_nat (n div 10) @ [digit_chars ! (n mod 10)])"

text \<open>The loop of \<open>main\<close> over the files found, counting the files fixed.\<close>

fun fix_files :: "string list \<Rightarrow> nat \<Rightarrow> world \<Rightarrow> error + (nat \<times> world)" where
  "fix_files [] fixed_count w = Inr (fixed_count, w)"
| "fix_files (filepath # rest) fixed_count w =
     (case fix_boost_json_file filepath w of
        Inl e \<Rightarrow> Inl e
      | Inr (fixed, w') \<Rightarrow> fix_files rest (if fixed then fixed_count + 1 else fixed_count) w')"

text \<open>
  \<open>main\<close>: the three recursive globs are expanded first (\<open>glob\<close> gives the paths a pattern
  expands to, in the directory tree as it is when the script starts), then every file is
  fixed, then the count is printed.
\<close>

definition find_cpp_files :: "(string \<Rightarrow> string list) \<Rightarrow> string list" where
  "find_cpp_files glob =
     concat (map glob [''src/**/*.cpp'', ''include/**/*.h'', ''tests/**/*.cpp''])"

definition main :: "(string \<Rightarrow> string list) \<Rightarrow> world \<Rightarrow> error + world" where
  "main glob w =
     (let cpp_files = find_cpp_files glob
      in case fix_files cpp_files 0 w of
           Inl e \<Rightarrow> Inl e
         | Inr (fixed_count, w') \<Rightarrow>
             Inr (w'\<lparr>console := console w' @ [''Fixed '' @ str_nat fixed_count @ '' files'']\<rparr>))"

text \<open>
  The files, in order, for which the call of \<open>fix_boost_json_file\<close> in the loop of \<open>main\<close>
  returns True.
\<close>

fun fixed_files :: "string list \<Rightarrow> world \<Rightarrow> string list" where
  "fixed_files [] w = []"
| "fixed_files (filepath # rest) w =
     (case fix_boost_json_file filepath w of
        Inl e \<Rightarrow> []
      | Inr (fixed, w') \<Rightarrow> (if fixed then [filepath] else []) @ fixed_files rest w')"

section \<open>Script B: \<^verbatim>\<open>fix_config.py\<close>\<close>

text \<open>
  Line 13: \<^verbatim>\<open>(\w+)\.is_object\(\) && \1\.as_object\(\)\.contains\("([^"]+)"\)\<close> becomes
  \<^verbatim>\<open>\1.contains("\2")\<close>.
\<close>

definition guarded_pat :: "node list" where
  \<open>guarded_pat = [Group 1 [Plus Word], Str ''.is_object() && '', Backref 1,
                  Str ''.as_object().contains("'', Group 2 [Plus (Not (CHR ''"''))], Str ''")'']\<close>

definition guarded_repl :: "piece list" where
  \<open>guarded_repl = [GroupRef 1, Txt ''.contains("'', GroupRef 2, Txt ''")'']\<close>

definition rule_config :: "string \<Rightarrow> string" where
  "rule_config = re_sub guarded_pat guarded_repl"

definition fix_config :: "world \<Rightarrow> error + world" where
  "fix_config w =
     (case files w ''src/config.cpp'' of
        None \<Rightarrow> Inl (OSError ''src/config.cpp'')
      | Some content \<Rightarrow>
          Inr (w\<lparr>files := (files w)(''src/config.cpp'' \<mapsto> rule_config content),
                  written := written w @ [''src/config.cpp''],
                  console := console w @ [''Fixed config.cpp'']\<rparr>))"


text \<open>
  The strings the claims quantify over: a C++ identifier (word characters, the first not
  a digit), a decimal literal (one or more digits) and a key without a double quote.
\<close>

definition is_identifier :: "string \<Rightarrow> bool" where
  "is_identifier v =
     (case v of
        [] \<Rightarrow> False
      | c # cs \<Rightarrow> in_class Word c \<and> \<not> in_class Digit c \<and> list_all (in_class Word) cs)"

definition is_decimal :: "string \<Rightarrow> bool" where
  "is_decimal n = (n \<noteq> [] \<and> list_all (in_class Digit) n)"

definition quote_free :: "string \<Rightarrow> bool" where
  "quote_free k = list_all (in_class (Not (CHR 0x22))) k"



text \<open>Three small worlds used as concrete inputs below.\<close>

definition plain_world :: world where
  "plain_world = \<lparr>files = [''src/main.cpp'' \<mapsto> ''int main() { return 0; }''],
                   written = [], console = []\<rparr>"

definition two_files_glob :: "string \<Rightarrow> string list" where
  "two_files_glob pattern =
     (if pattern = ''src/**/*.cpp'' then [''src/a.cpp'', ''src/b.cpp''] else [])"

definition two_files_world :: world where
  "two_files_world = \<lparr>files = [''src/a.cpp'' \<mapsto> ''x = json::array();'',
                                ''src/b.cpp'' \<mapsto> ''int y;''],
                       written = [], console = []\<rparr>"

definition config_world :: world where
  "config_world = \<lparr>files = [''src/config.cpp'' \<mapsto> ''int x;''],
                    written = [], console = []\<rparr>"

section \<open>Text without a match is copied\<close>

lemma sub_from_no_match:
  "\<not> search_from pat p r \<Longrightarrow> sub_from pat repl False p r = r"
proof (induction r arbitrary: p)
  case Nil
  then have "match_at pat False p [] = None"
    by (cases "match_at pat False p []") simp_all
  then show ?case by (subst sub_from.simps) simp
next
  case (Cons c cs)
  from Cons.prems have n: "match_at pat False p (c # cs) = None"
    by (cases "match_at pat False p (c # cs)") simp_all
  with Cons.prems have s: "\<not> search_from pat (Some c) cs"
    by simp
  show ?case using n Cons.IH[OF s] by (subst sub_from.simps) simp
qed

lemma re_sub_no_match: "\<not> re_search pat s \<Longrightarrow> re_sub pat repl s = s"
  by (simp add: re_sub_def re_search_def sub_from_no_match)

section \<open>Script A, line 19: array creation\<close>

text \<open>
  C1.  Applying the substitution of line 19 twice is claimed to give the same text as
  applying it once.  It does not: the rule's own output \<^verbatim>\<open>boost::json::array()\<close> contains
  \<^verbatim>\<open>json::array()\<close> right after a colon, where \<^verbatim>\<open>\b\<close> holds, so the second application
  prefixes it again.  Evaluated on the text \<^verbatim>\<open>json::array()\<close>.
\<close>

theorem rule_array_twice:
  "rule_array ''json::array()'' = ''boost::json::array()'' \<and>
   rule_array (rule_array ''json::array()'') = ''boost::boost::json::array()'' \<and>
   rule_array (rule_array ''json::array()'') \<noteq> rule_array ''json::array()''"
  by code_simp


section \<open>Script A, line 16: declarations\<close>


section \<open>Script A: files without a match\<close>

text \<open>
  C3.  A file that exists and whose content matches none of the seven patterns is left
  alone by \<open>fix_boost_json_file\<close>: the call returns False and the world is the same, so no
  file content changed, nothing was written and nothing was printed.
\<close>

theorem no_match_unchanged:
  assumes "files w filepath = Some content"
    and "\<forall>pat \<in> set patterns_A. \<not> re_search pat content"
  shows "fix_boost_json_file filepath w = Inr (False, w)"
  using assms
  by (simp add: fix_boost_json_file_def patterns_A_def re_sub_no_match
      rule_decl_def rule_array_def rule_value_array_def rule_object_def rule_value_object_def
      rule_dump_def rule_contains_def)

theorem no_match_unchanged_witness:
  "files plain_world ''src/main.cpp'' = Some ''int main() { return 0; }'' \<and>
   \<not> re_search decl_pat ''int main() { return 0; }'' \<and>
   \<not> re_search array_pat ''int main() { return 0; }'' \<and>
   \<not> re_search value_array_pat ''int main() { return 0; }'' \<and>
   \<not> re_search object_pat ''int main() { return 0; }'' \<and>
   \<not> re_search value_object_pat ''int main() { return 0; }'' \<and>
   \<not> re_search dump_pat ''int main() { return 0; }'' \<and>
   \<not> re_search contains_pat ''int main() { return 0; }'' \<and>
   fix_boost_json_file ''src/main.cpp'' plain_world = Inr (False, plain_world)"
proof -
  have f: "files plain_world ''src/main.cpp'' = Some ''int main() { return 0; }''"
    by (simp add: plain_world_def)
  have n: "\<not> re_search decl_pat ''int main() { return 0; }''"
    "\<not> re_search array_pat ''int main() { return 0; }''"
    "\<not> re_search value_array_pat ''int main() { return 0; }''"
    "\<not> re_search object_pat ''int main() { return 0; }''"
    "\<not> re_search value_object_pat ''int main() { return 0; }''"
    "\<not> re_search dump_pat ''int main() { return 0; }''"
    "\<not> re_search contains_pat ''int main() { return 0; }''"
    by code_simp+
  then have a: "\<forall>pat \<in> set patterns_A. \<not> re_search pat ''int main() { return 0; }''"
    by (simp add: patterns_A_def)
  from no_match_unchanged[OF f a] f n show ?thesis by simp
qed

section \<open>Script B\<close>

text \<open>
  C7.  Whatever the content of \<^verbatim>\<open>src/config.cpp\<close>, Script B writes the substituted content
  to that path and prints \<^verbatim>\<open>Fixed config.cpp\<close>.  Where the pattern matches nowhere the
  content written is the content read, and the write and the message happen all the same.
\<close>

theorem fix_config_always:
  assumes "files w ''src/config.cpp'' = Some content"
  shows "fix_config w =
           Inr (w\<lparr>files := (files w)(''src/config.cpp'' \<mapsto> rule_config content),
                   written := written w @ [''src/config.cpp''],
                   console := console w @ [''Fixed config.cpp'']\<rparr>) \<and>
         (\<not> re_search guarded_pat content \<longrightarrow>
            fix_config w =
              Inr (w\<lparr>written := written w @ [''src/config.cpp''],
                      console := console w @ [''Fixed config.cpp'']\<rparr>))"
proof -
  have "(files w)(''src/config.cpp'' \<mapsto> content) = files w"
    using assms by (simp add: fun_upd_idem)
  then show ?thesis using assms
    by (simp add: fix_config_def rule_config_def re_sub_no_match)
qed

theorem fix_config_always_witness:
  "files config_world ''src/config.cpp'' = Some ''int x;'' \<and>
   \<not> re_search guarded_pat ''int x;'' \<and>
   fix_config config_world =
     Inr (config_world\<lparr>written := [''src/config.cpp''], console := [''Fixed config.cpp'']\<rparr>)"
proof -
  have f: "files config_world ''src/config.cpp'' = Some ''int x;''"
    by (simp add: config_world_def)
  have n: "\<not> re_search guarded_pat ''int x;''"
    by code_simp
  have e: "written config_world = []" "console config_world = []"
    by (simp_all add: config_world_def)
  have "fix_config config_world =
          Inr (config_world\<lparr>written := written config_world @ [''src/config.cpp''],
                            console := console config_world @ [''Fixed config.cpp'']\<rparr>)"
    using fix_config_always[OF f] n by blast
  with n e f show ?thesis by simp
qed

text \<open>
  C10.  For distinct identifiers on the two sides the substitution of Script B is claimed
  to leave \<^verbatim>\<open>a.is_object() && b.as_object().contains("k")\<close> unchanged.  The pattern is not
  anchored on the left, so it also matches from the middle of the first identifier: with
  \<^verbatim>\<open>xb\<close> and \<^verbatim>\<open>b\<close> the conjunction is collapsed to \<^verbatim>\<open>xb.contains("k")\<close>.
\<close>

theorem rule_config_suffix_identifier:
  \<open>rule_config ''xb.is_object() && b.as_object().contains("k")'' = ''xb.contains("k")''\<close>
  by code_simp


section \<open>Script A: the console output of \<open>main\<close>\<close>

lemma fix_boost_json_file_effect:
  assumes "fix_boost_json_file f w = Inr (b, w')"
  shows "dom (files w') = dom (files w)"
    and "written w' = written w @ (if b then [f] else [])"
    and "console w' = console w @ (if b then [''Fixed: '' @ f] else [])"
proof -
  from assms obtain c where c: "files w f = Some c"
    by (cases "files w f") (simp_all add: fix_boost_json_file_def)
  then have "f \<in> dom (files w)" by auto
  then have d: "insert f (dom (files w)) = dom (files w)" by auto
  from assms c d show "dom (files w') = dom (files w)"
    by (auto simp: fix_boost_json_file_def Let_def split: if_splits)
  from assms c show "written w' = written w @ (if b then [f] else [])"
    by (auto simp: fix_boost_json_file_def Let_def split: if_splits)
  from assms c show "console w' = console w @ (if b then [''Fixed: '' @ f] else [])"
    by (auto simp: fix_boost_json_file_def Let_def split: if_splits)
qed

lemma fix_boost_json_file_total:
  "f \<in> dom (files w) \<Longrightarrow> \<exists>b w'. fix_boost_json_file f w = Inr (b, w')"
  by (auto simp: fix_boost_json_file_def Let_def)

lemma fix_files_total:
  "set fs \<subseteq> dom (files w) \<Longrightarrow> \<exists>n' w'. fix_files fs n w = Inr (n', w')"
proof (induction fs arbitrary: n w)
  case Nil
  then show ?case by simp
next
  case (Cons f fs)
  then have "f \<in> dom (files w)" by simp
  then obtain b w' where r: "fix_boost_json_file f w = Inr (b, w')"
    using fix_boost_json_file_total by blast
  with Cons.prems have "set fs \<subseteq> dom (files w')"
    using fix_boost_json_file_effect(1)[OF r] by simp
  from Cons.IH[OF this] r show ?case by simp
qed

lemma fix_files_run:
  "fix_files fs n w = Inr (n', w') \<Longrightarrow>
     n' = n + length (fixed_files fs w) \<and>
     written w' = written w @ fixed_files fs w \<and>
     console w' = console w @ map (\<lambda>f. ''Fixed: '' @ f) (fixed_files fs w)"
proof (induction fs arbitrary: n w)
  case Nil
  then show ?case by simp
next
  case (Cons f fs)
  from Cons.prems obtain b w1 where r: "fix_boost_json_file f w = Inr (b, w1)"
    by (cases "fix_boost_json_file f w") auto
  with Cons.prems have "fix_files fs (if b then n + 1 else n) w1 = Inr (n', w')"
    by simp
  from Cons.IH[OF this] r fix_boost_json_file_effect(2,3)[OF r] show ?case
    by (cases b) simp_all
qed

text \<open>
  C8.  When every path found by the globs can be read, \<open>main\<close> returns, and what it printed
  is one line \<^verbatim>\<open>Fixed: <path>\<close> for each file whose call returned True, in order, then the
  line \<^verbatim>\<open>Fixed N files\<close> with N the number of those files; they are exactly the files
  written.
\<close>

theorem main_console:
  assumes "set (find_cpp_files glob) \<subseteq> dom (files w)"
  shows "\<exists>w'. main glob w = Inr w' \<and>
           console w' = console w
             @ map (\<lambda>f. ''Fixed: '' @ f) (fixed_files (find_cpp_files glob) w)
             @ [''Fixed '' @ str_nat (length (fixed_files (find_cpp_files glob) w)) @ '' files''] \<and>
           written w' = written w @ fixed_files (find_cpp_files glob) w"
proof -
  from fix_files_total[OF assms] obtain n' w1
    where r: "fix_files (find_cpp_files glob) 0 w = Inr (n', w1)" by blast
  from fix_files_run[OF r] r show ?thesis
    by (simp add: main_def)
qed

theorem main_console_witness:
  "set (find_cpp_files two_files_glob) \<subseteq> dom (files two_files_world) \<and>
   (\<exists>w'. main two_files_glob two_files_world = Inr w' \<and>
      console w' = [''Fixed: src/a.cpp'', ''Fixed 1 files''] \<and>
      written w' = [''src/a.cpp''])"
proof -
  have g: "find_cpp_files two_files_glob = [''src/a.cpp'', ''src/b.cpp'']"
    by (simp add: find_cpp_files_def two_files_glob_def)
  have h: "set (find_cpp_files two_files_glob) \<subseteq> dom (files two_files_world)"
    unfolding g by (simp add: two_files_world_def)
  have f: "fixed_files [''src/a.cpp'', ''src/b.cpp''] two_files_world = [''src/a.cpp'']"
    by code_simp
  have e: "written two_files_world = []" "console two_files_world = []"
    by (simp_all add: two_files_world_def)
  from main_console[OF h] h show ?thesis
    unfolding g f e by (simp add: digit_chars_def)
qed

section \<open>A greedy run followed by literal text\<close>

lemma starts_with_append: "starts_with s (s @ r)"
  by (induction s) auto

lemma match_seq_Str:
  "match_seq (Str s # ns) (p, r, g) =
     (if starts_with s r then match_seq ns (advance s p, drop (length s) r, g) else [])"
  by simp

lemma match_seq_Backref:
  "match_seq (Backref k # ns) (p, r, g) =
     (case g k of
        None \<Rightarrow> []
      | Some s \<Rightarrow> if starts_with s r then match_seq ns (advance s p, drop (length s) r, g) else [])"
  by (simp split: option.splits)

text \<open>
  When the text after a run starts with a character outside the class, only the longest
  run can be continued: every shorter one stops in front of a class character.
\<close>

lemma runs_then_Str:
  assumes "\<not> in_class cl c"
  shows "concat (map (\<lambda>(p', r'). match_seq (Str (c # s) # ns) (p', r', G r')) (runs cl p r))
         = match_seq (Str (c # s) # ns)
             (advance (takeWhile (in_class cl) r) p, dropWhile (in_class cl) r,
              G (dropWhile (in_class cl) r))"
proof (induction r arbitrary: p)
  case Nil
  show ?case by simp
next
  case (Cons x xs)
  show ?case
  proof (cases "in_class cl x")
    case True
    with assms have "c \<noteq> x" by auto
    with True Cons.IH[of "Some x"] show ?thesis by simp
  next
    case False
    then show ?thesis by simp
  qed
qed

lemma take_takeWhile:
  "take (length r - length (dropWhile P r)) r = takeWhile P r"
proof -
  have "length r = length (takeWhile P r) + length (dropWhile P r)"
    by (metis length_append takeWhile_dropWhile_id)
  then have "length r - length (dropWhile P r) = length (takeWhile P r)"
    by simp
  then show ?thesis by (metis takeWhile_eq_take)
qed

lemma Group_Plus_Str:
  assumes "\<not> in_class cl c"
  shows "match_seq (Group k [Plus cl] # Str (c # s) # ns) (p, r, g) =
           (if takeWhile (in_class cl) r = [] then []
            else match_seq (Str (c # s) # ns)
                   (advance (takeWhile (in_class cl) r) p, dropWhile (in_class cl) r,
                    g(k \<mapsto> takeWhile (in_class cl) r)))"
proof (cases r)
  case Nil
  then show ?thesis by simp
next
  case (Cons x xs)
  show ?thesis
  proof (cases "in_class cl x")
    case False
    with Cons show ?thesis by simp
  next
    case True
    have "match_seq (Group k [Plus cl] # Str (c # s) # ns) (p, r, g) =
            concat (map (\<lambda>(p', r'). match_seq (Str (c # s) # ns)
                           (p', r', g(k \<mapsto> take (length r - length r') r)))
                      (runs cl (Some x) xs))"
      using Cons True by (simp add: comp_def case_prod_unfold)
    also have "\<dots> = match_seq (Str (c # s) # ns)
                       (advance (takeWhile (in_class cl) xs) (Some x), dropWhile (in_class cl) xs,
                        g(k \<mapsto> take (length r - length (dropWhile (in_class cl) xs)) r))"
      by (rule runs_then_Str[OF assms, where G = "\<lambda>r'. g(k \<mapsto> take (length r - length r') r)"])
    also have "take (length r - length (dropWhile (in_class cl) xs)) r = takeWhile (in_class cl) r"
      using take_takeWhile[of r "in_class cl"] Cons True by simp
    finally show ?thesis using Cons True by (simp add: fun_upd_def)
  qed
qed

lemma takeWhile_run:
  "list_all P v \<Longrightarrow> \<not> P c \<Longrightarrow> takeWhile P (v @ c # r) = v"
  by (induction v) simp_all

lemma dropWhile_run:
  "list_all P v \<Longrightarrow> \<not> P c \<Longrightarrow> dropWhile P (v @ c # r) = c # r"
  by (induction v) simp_all

lemma run_then:
  assumes "list_all P u" and "takeWhile P R = []"
  shows "takeWhile P (u @ R) = u" and "dropWhile P (u @ R) = R"
proof -
  from assms(2) have d: "dropWhile P R = R"
    by (metis append_Nil takeWhile_dropWhile_id)
  from assms show "takeWhile P (u @ R) = u" by (induction u) simp_all
  from assms(1) d show "dropWhile P (u @ R) = R" by (induction u) simp_all
qed

lemmas step = match_seq_Str match_seq_Backref Group_Plus_Str takeWhile_run dropWhile_run

lemma not_word [simp]:
  "CHR ''.'' \<notin> set word_chars" "CHR ''('' \<notin> set word_chars" "CHR '')'' \<notin> set word_chars"
  "CHR 0x22 \<notin> set word_chars"
  by (simp_all add: word_chars_def)

lemma not_digit [simp]: "CHR '')'' \<notin> set digit_chars"
  by (simp add: digit_chars_def)

lemma is_identifier_word: "is_identifier v \<Longrightarrow> v \<noteq> [] \<and> list_all (in_class Word) v"
  by (cases v) (simp_all add: is_identifier_def)

section \<open>Steps of the scan\<close>

lemma match_at_single:
  "match_seq pat (p, r, Map.empty) = [st] \<Longrightarrow> match_at pat False p r = Some st"
  by (cases st) (simp add: match_at_def)

lemma match_at_none:
  "match_seq pat (p, r, Map.empty) = [] \<Longrightarrow> match_at pat must p r = None"
  by (simp add: match_at_def)

lemma sub_from_end:
  "match_seq pat (p, [], Map.empty) = [] \<Longrightarrow> sub_from pat repl False p [] = []"
  by (subst sub_from.simps) (simp add: match_at_none)

text \<open>A pattern that matches the whole text in one way, and not the empty text.\<close>

lemma sub_from_whole:
  assumes "match_seq pat (p, r, Map.empty) = [(p', [], g)]" and "r \<noteq> []"
    and "match_seq pat (p', [], Map.empty) = []"
  shows "sub_from pat repl False p r = expand repl g"
  using assms
  by (subst sub_from.simps) (simp add: match_at_single sub_from_end)

lemma search_from_skip:
  "match_seq pat (p, c # cs, Map.empty) = [] \<Longrightarrow>
   search_from pat p (c # cs) = search_from pat (Some c) cs"
  by (simp add: match_at_none)

text \<open>
  The scan passes over a run of class characters when the text after the run does not
  continue the pattern.
\<close>

lemma search_from_skip_run:
  assumes c: "\<not> in_class cl c" and R: "takeWhile (in_class cl) R = []"
    and tail: "\<And>q g. match_seq (Str (c # s) # ns) (q, R, g) = []"
    and u: "list_all (in_class cl) u"
  shows "search_from (Group k [Plus cl] # Str (c # s) # ns) p (u @ R)
         = search_from (Group k [Plus cl] # Str (c # s) # ns) (advance u p) R"
  using u
proof (induction u arbitrary: p)
  case Nil
  show ?case by simp
next
  case (Cons x u)
  have "match_seq (Group k [Plus cl] # Str (c # s) # ns) (p, (x # u) @ R, Map.empty) = []"
    by (subst Group_Plus_Str[OF c]) (simp only: run_then[OF Cons.prems R] tail if_cancel)
  then have "search_from (Group k [Plus cl] # Str (c # s) # ns) p ((x # u) @ R)
             = search_from (Group k [Plus cl] # Str (c # s) # ns) (Some x) (u @ R)"
    using search_from_skip[of _ p x "u @ R"] by simp
  with Cons.IH[of "Some x"] Cons.prems show ?case by simp
qed

section \<open>Script A, line 27: serialization\<close>

lemma dump_pat_end: "match_seq dump_pat (p, [], g) = []"
  by (simp add: dump_pat_def)

lemma dump_pat_match:
  assumes v: "list_all (in_class Word) v" "v \<noteq> []" and n: "is_decimal n"
  shows "match_seq dump_pat (p, v @ ''.dump('' @ n @ '')'', Map.empty)
         = [(Some (CHR '')''), [], [1 \<mapsto> v, 2 \<mapsto> n])]"
proof -
  from n have n': "list_all (in_class Digit) n" "n \<noteq> []"
    by (simp_all add: is_decimal_def)
  show ?thesis
    unfolding dump_pat_def using v n'
    by (simp del: match_node.simps match_seq.simps(2) add: step)
qed

text \<open>
  C6.  For every identifier \<open>v\<close> and every decimal literal \<open>n\<close> the substitution of line 27
  turns \<^verbatim>\<open>v.dump(n)\<close> into \<^verbatim>\<open>boost::json::serialize(v)\<close>; the argument is dropped.
\<close>

theorem rule_dump_literal:
  assumes "is_identifier v" and "is_decimal n"
  shows "rule_dump (v @ ''.dump('' @ n @ '')'') = ''boost::json::serialize('' @ v @ '')''"
proof -
  from assms(1) have v: "list_all (in_class Word) v" "v \<noteq> []"
    using is_identifier_word by simp_all
  have "sub_from dump_pat dump_repl False None (v @ ''.dump('' @ n @ '')'')
          = expand dump_repl [1 \<mapsto> v, 2 \<mapsto> n]"
    by (rule sub_from_whole[OF dump_pat_match[OF v assms(2)] _ dump_pat_end]) simp
  then show ?thesis
    by (simp add: rule_dump_def re_sub_def dump_repl_def)
qed

theorem rule_dump_literal_witness:
  "is_identifier ''v'' \<and> is_decimal ''2'' \<and>
   rule_dump ''v.dump(2)'' = ''boost::json::serialize(v)''"
proof -
  have i: "is_identifier ''v''" by code_simp
  have d: "is_decimal ''2''" by code_simp
  from rule_dump_literal[OF i d] i d show ?thesis by simp
qed














section \<open>Script A, line 31, and Script B: containment checks\<close>

lemma contains_pat_end: "match_seq contains_pat (p, [], g) = []"
  by (simp add: contains_pat_def)

lemma guarded_pat_end: "match_seq guarded_pat (p, [], g) = []"
  by (simp add: guarded_pat_def)

lemma contains_pat_match:
  assumes v: "list_all (in_class Word) v" "v \<noteq> []" and k: "quote_free k" "k \<noteq> []"
  shows \<open>match_seq contains_pat (p, v @ ''.contains("'' @ k @ ''")'', Map.empty)
         = [(Some (CHR '')''), [], [1 \<mapsto> v, 2 \<mapsto> k])]\<close>
  unfolding contains_pat_def using v k
  by (simp del: match_node.simps match_seq.simps(2) add: step quote_free_def)

lemma guarded_pat_match:
  assumes v: "list_all (in_class Word) v" "v \<noteq> []" and k: "quote_free k" "k \<noteq> []"
  shows \<open>match_seq guarded_pat
           (p, v @ ''.is_object() && '' @ v @ ''.as_object().contains("'' @ k @ ''")'', Map.empty)
         = [(Some (CHR '')''), [], [1 \<mapsto> v, 2 \<mapsto> k])]\<close>
  unfolding guarded_pat_def using v k
  by (simp del: match_node.simps match_seq.simps(2) add: step quote_free_def starts_with_append)

lemma rule_contains_word:
  assumes v: "list_all (in_class Word) v" "v \<noteq> []" and k: "quote_free k" "k \<noteq> []"
  shows \<open>rule_contains (v @ ''.contains("'' @ k @ ''")'')
           = v @ ''.is_object() && '' @ v @ ''.as_object().contains("'' @ k @ ''")''\<close>
proof -
  have \<open>sub_from contains_pat contains_repl False None (v @ ''.contains("'' @ k @ ''")'')
          = expand contains_repl [1 \<mapsto> v, 2 \<mapsto> k]\<close>
    by (rule sub_from_whole[OF contains_pat_match[OF v k] _ contains_pat_end]) simp
  then show ?thesis
    by (simp add: rule_contains_def re_sub_def contains_repl_def)
qed

lemma rule_config_guarded:
  assumes v: "list_all (in_class Word) v" "v \<noteq> []" and k: "quote_free k" "k \<noteq> []"
  shows \<open>rule_config (v @ ''.is_object() && '' @ v @ ''.as_object().contains("'' @ k @ ''")'')
           = v @ ''.contains("'' @ k @ ''")''\<close>
proof -
  have \<open>sub_from guarded_pat guarded_repl False None
          (v @ ''.is_object() && '' @ v @ ''.as_object().contains("'' @ k @ ''")'')
          = expand guarded_repl [1 \<mapsto> v, 2 \<mapsto> k]\<close>
    by (rule sub_from_whole[OF guarded_pat_match[OF v k] _ guarded_pat_end]) simp
  then show ?thesis
    by (simp add: rule_config_def re_sub_def guarded_repl_def)
qed

text \<open>With the empty key neither pattern matches: both want at least one key character.\<close>

lemma contains_empty_tail: \<open>\<not> search_from contains_pat q ''.contains("")''\<close>
  by code_simp

lemma guarded_empty_tail: \<open>\<not> search_from guarded_pat q ''.contains("")''\<close>
  by code_simp

lemma rule_contains_empty:
  assumes v: "list_all (in_class Word) v"
  shows \<open>rule_contains (v @ ''.contains("")'') = v @ ''.contains("")''\<close>
proof -
  have e: \<open>search_from contains_pat None (v @ ''.contains("")'')
        = search_from contains_pat (advance v None) ''.contains("")''\<close>
    unfolding contains_pat_def
    by (rule search_from_skip_run[OF _ _ _ v])
       (simp_all del: match_node.simps match_seq.simps(2) add: step)
  have \<open>\<not> search_from contains_pat None (v @ ''.contains("")'')\<close>
    unfolding e by (rule contains_empty_tail)
  then show ?thesis
    unfolding rule_contains_def re_sub_def by (rule sub_from_no_match)
qed

lemma rule_config_empty:
  assumes v: "list_all (in_class Word) v"
  shows \<open>rule_config (v @ ''.contains("")'') = v @ ''.contains("")''\<close>
proof -
  have e: \<open>search_from guarded_pat None (v @ ''.contains("")'')
        = search_from guarded_pat (advance v None) ''.contains("")''\<close>
    unfolding guarded_pat_def
    by (rule search_from_skip_run[OF _ _ _ v]) simp_all
  have \<open>\<not> search_from guarded_pat None (v @ ''.contains("")'')\<close>
    unfolding e by (rule guarded_empty_tail)
  then show ?thesis
    unfolding rule_config_def re_sub_def by (rule sub_from_no_match)
qed

text \<open>
  C5.  For every identifier \<open>v\<close> and every key \<open>k\<close> without a double quote that is not
  empty, the substitution of line 31 turns \<^verbatim>\<open>v.contains("k")\<close> into
  \<^verbatim>\<open>v.is_object() && v.as_object().contains("k")\<close>.
\<close>

theorem rule_contains_key:
  assumes "is_identifier v" and "quote_free k" and "k \<noteq> []"
  shows \<open>rule_contains (v @ ''.contains("'' @ k @ ''")'')
           = v @ ''.is_object() && '' @ v @ ''.as_object().contains("'' @ k @ ''")''\<close>
proof -
  from assms(1) have v: "list_all (in_class Word) v" "v \<noteq> []"
    using is_identifier_word by simp_all
  from v assms(2,3) show ?thesis by (rule rule_contains_word)
qed

theorem rule_contains_key_witness:
  \<open>is_identifier ''v'' \<and> quote_free ''k'' \<and> ''k'' \<noteq> [] \<and>
   rule_contains ''v.contains("k")'' = ''v.is_object() && v.as_object().contains("k")''\<close>
proof -
  have i: "is_identifier ''v''" by code_simp
  have q: "quote_free ''k''" by code_simp
  have n: "''k'' \<noteq> []" by simp
  from rule_contains_key[OF i q n] i q show ?thesis by simp
qed

text \<open>
  The empty key has no double quote, and \<^verbatim>\<open>v.contains("")\<close> is not rewritten: the class
  \<^verbatim>\<open>[^"]+\<close> of the pattern wants at least one character.
\<close>

theorem rule_contains_empty_key:
  \<open>is_identifier ''v'' \<and> quote_free [] \<and>
   rule_contains (''v'' @ ''.contains("'' @ [] @ ''")'') = ''v.contains("")'' \<and>
   rule_contains (''v'' @ ''.contains("'' @ [] @ ''")'')
     \<noteq> ''v'' @ ''.is_object() && '' @ ''v'' @ ''.as_object().contains("'' @ [] @ ''")''\<close>
  by code_simp

text \<open>
  Whatever the key, Script B undoes what line 31 of Script A did to one containment
  check: with the empty key both leave the text as it is.
\<close>

lemma round_trip_any_key:
  assumes "is_identifier v" and "quote_free k"
  shows \<open>rule_config (rule_contains (v @ ''.contains("'' @ k @ ''")''))
           = v @ ''.contains("'' @ k @ ''")''\<close>
proof -
  from assms(1) have v: "list_all (in_class Word) v" "v \<noteq> []"
    using is_identifier_word by simp_all
  show ?thesis
  proof (cases "k = []")
    case True
    then show ?thesis
      using rule_contains_empty[OF v(1)] rule_config_empty[OF v(1)] by simp
  next
    case False
    with rule_contains_word[OF v assms(2)] rule_config_guarded[OF v assms(2)]
    show ?thesis by simp
  qed
qed

text \<open>
  C2.  For every identifier \<open>v\<close> and every key \<open>k\<close> without a double quote that is not
  empty, line 31 of Script A turns \<^verbatim>\<open>v.contains("k")\<close> into the guarded conjunction
  \<^verbatim>\<open>v.is_object() && v.as_object().contains("k")\<close>, and the substitution of Script B turns
  that conjunction back into \<^verbatim>\<open>v.contains("k")\<close>.
\<close>

theorem rule_config_inverse:
  assumes "is_identifier v" and "quote_free k" and "k \<noteq> []"
  shows \<open>rule_contains (v @ ''.contains("'' @ k @ ''")'')
           = v @ ''.is_object() && '' @ v @ ''.as_object().contains("'' @ k @ ''")'' \<and>
         rule_config (v @ ''.is_object() && '' @ v @ ''.as_object().contains("'' @ k @ ''")'')
           = v @ ''.contains("'' @ k @ ''")'' \<and>
         rule_config (rule_contains (v @ ''.contains("'' @ k @ ''")''))
           = v @ ''.contains("'' @ k @ ''")''\<close>
proof -
  from assms(1) have v: "list_all (in_class Word) v" "v \<noteq> []"
    using is_identifier_word by simp_all
  from rule_contains_word[OF v assms(2,3)] rule_config_guarded[OF v assms(2,3)]
  show ?thesis by simp
qed

theorem rule_config_inverse_witness:
  \<open>is_identifier ''v'' \<and> quote_free ''k'' \<and> ''k'' \<noteq> [] \<and>
   rule_contains ''v.contains("k")'' = ''v.is_object() && v.as_object().contains("k")'' \<and>
   rule_config ''v.is_object() && v.as_object().contains("k")'' = ''v.contains("k")'' \<and>
   rule_config (rule_contains ''v.contains("k")'') = ''v.contains("k")''\<close>
proof -
  have i: "is_identifier ''v''" by code_simp
  have q: "quote_free ''k''" by code_simp
  have n: "''k'' \<noteq> []" by simp
  from rule_config_inverse[OF i q n] i q show ?thesis by simp
qed

text \<open>
  With the empty key, which has no double quote, line 31 does not produce the guarded
  conjunction, and Script B does not collapse the guarded conjunction: its key class
  \<^verbatim>\<open>[^"]+\<close> wants at least one character as well.
\<close>

theorem rule_config_empty_key:
  \<open>is_identifier ''v'' \<and> quote_free [] \<and>
   rule_contains (''v'' @ ''.contains("'' @ [] @ ''")'')
     \<noteq> ''v'' @ ''.is_object() && '' @ ''v'' @ ''.as_object().contains("'' @ [] @ ''")'' \<and>
   rule_config (''v'' @ ''.is_object() && '' @ ''v'' @ ''.as_object().contains("'' @ [] @ ''")'')
     = ''v.is_object() && v.as_object().contains("")'' \<and>
   rule_config (''v'' @ ''.is_object() && '' @ ''v'' @ ''.as_object().contains("'' @ [] @ ''")'')
     \<noteq> ''v'' @ ''.contains("'' @ [] @ ''")''\<close>
  by code_simp

end
